theory Spec2Isabelle
  imports Main
begin

section \<open>Outcomes of a call\<close>

text \<open>
  The bank (\<^verbatim>\<open>src/src/bank.cpp\<close>, \<^verbatim>\<open>src/include/bank.h\<close>) is embedded as
  state-passing functions over a record of the \<^verbatim>\<open>Bank\<close> object. Every way a call
  can fail to return normally is a value of \<open>error\<close>:
  \<^item> \<open>OutOfBounds\<close>: \<^verbatim>\<open>accounts[i]\<close> with \<open>i\<close> outside the allocated array
    (the C++ has no check; the access is undefined behaviour);
  \<^item> \<open>Blocked\<close>: \<^verbatim>\<open>pthread_mutex_lock\<close> on a mutex that is held. The functions below
    describe one thread of control running an operation from its first to its last
    statement, so a mutex that is held when the operation asks for it is never
    released and the call does not return;
  \<^item> \<open>SignedOverflow\<close>: arithmetic on \<^verbatim>\<open>long\<close> or \<^verbatim>\<open>int\<close> whose result is not
    representable (undefined behaviour in C++);
  \<^item> \<open>BadArrayLength\<close>: \<^verbatim>\<open>new Account[num]\<close> with a negative length.
\<close>

datatype error = OutOfBounds | Blocked | SignedOverflow | BadArrayLength

definition seq :: "error + 'a \<Rightarrow> ('a \<Rightarrow> error + 'b) \<Rightarrow> error + 'b" where
  "seq m f = (case m of Inl e \<Rightarrow> Inl e | Inr x \<Rightarrow> f x)"

subsection \<open>Machine integers\<close>

text \<open>
  \<^verbatim>\<open>int\<close> is 32 bits and \<^verbatim>\<open>long\<close> 64 bits (LP64, the data model of the POSIX
  targets the pthread code is built for). Values are kept as mathematical integers
  and every signed operation of the source checks that its result is representable.
\<close>

definition INT_MAX :: int where
  "INT_MAX = 2147483647"

definition LONG_MAX :: int where
  "LONG_MAX = 9223372036854775807"

definition LONG_MIN :: int where
  "LONG_MIN = - 9223372036854775808"

definition in_long :: "int \<Rightarrow> bool" where
  "in_long x = (LONG_MIN \<le> x \<and> x \<le> LONG_MAX)"

definition long_of :: "int \<Rightarrow> error + int" where
  "long_of x = (if in_long x then Inr x else Inl SignedOverflow)"

definition int_incr :: "int \<Rightarrow> error + int" where
  "int_incr x = (if x < INT_MAX then Inr (x + 1) else Inl SignedOverflow)"

subsection \<open>\<^verbatim>\<open>std::to_string\<close> and the message macros of \<^verbatim>\<open>bank.h\<close>\<close>

function string_of_nat :: "nat \<Rightarrow> string" where
  "string_of_nat n =
     (if n < 10 then [''0123456789'' ! n]
      else string_of_nat (n div 10) @ [''0123456789'' ! (n mod 10)])"
  by pat_completeness auto
termination
  by (relation "measure (\<lambda>n. n)") auto

definition to_string :: "int \<Rightarrow> string" where
  "to_string i = (if i < 0 then CHR ''-'' # string_of_nat (nat (- i)) else string_of_nat (nat i))"

definition SUCC :: string where
  "SUCC = ''[ SUCCESS ] ''"

definition ERR :: string where
  "ERR = ''[ FAIL ] ''"

definition DEPOSITE_MSG :: "string \<Rightarrow> int \<Rightarrow> int \<Rightarrow> int \<Rightarrow> int \<Rightarrow> string" where
  "DEPOSITE_MSG level w l a m =
     level @ ''TID: '' @ to_string w @ '', LID: '' @ to_string l @
       '', Acc: '' @ to_string a @ '' DEPOSIT $'' @ to_string m"

definition WITHDRAW_MSG :: "string \<Rightarrow> int \<Rightarrow> int \<Rightarrow> int \<Rightarrow> int \<Rightarrow> string" where
  "WITHDRAW_MSG level w l a m =
     level @ ''TID: '' @ to_string w @ '', LID: '' @ to_string l @
       '', Acc: '' @ to_string a @ '' WITHDRAW $'' @ to_string m"

definition TRANSFER_MSG :: "string \<Rightarrow> int \<Rightarrow> int \<Rightarrow> int \<Rightarrow> int \<Rightarrow> int \<Rightarrow> string" where
  "TRANSFER_MSG level w l a other m =
     level @ ''TID: '' @ to_string w @ '', LID: '' @ to_string l @
       '', Acc: '' @ to_string a @ '' TRANSFER $'' @ to_string m @
       '' TO Acc: '' @ to_string other"

section \<open>The bank\<close>

text \<open>
  \<^verbatim>\<open>struct Account\<close> and \<^verbatim>\<open>class Bank\<close>. A \<^verbatim>\<open>pthread_mutex_t\<close> is the flag
  "held". \<open>cout\<close> is the sequence of lines written to standard output.
\<close>

record Account =
  accountID :: nat
  balance :: int
  lock :: bool

record Bank =
  num :: int
  num_succ :: int
  num_fail :: int
  bank_lock :: bool
  accounts :: "Account list"
  cout :: "string list"

text \<open>\<^verbatim>\<open>accounts[i]\<close>: the position of the element, or the out-of-bounds outcome.\<close>

definition account_at :: "Bank \<Rightarrow> int \<Rightarrow> error + nat" where
  "account_at B i =
     (if 0 \<le> i \<and> i < int (length (accounts B)) then Inr (nat i) else Inl OutOfBounds)"

definition lock_account :: "nat \<Rightarrow> Bank \<Rightarrow> error + Bank" where
  "lock_account i B =
     (if lock (accounts B ! i) then Inl Blocked
      else Inr (B\<lparr>accounts := (accounts B)[i := (accounts B ! i)\<lparr>lock := True\<rparr>]\<rparr>))"

definition unlock_account :: "nat \<Rightarrow> Bank \<Rightarrow> Bank" where
  "unlock_account i B = B\<lparr>accounts := (accounts B)[i := (accounts B ! i)\<lparr>lock := False\<rparr>]\<rparr>"

definition set_balance :: "nat \<Rightarrow> int \<Rightarrow> Bank \<Rightarrow> Bank" where
  "set_balance i b B = B\<lparr>accounts := (accounts B)[i := (accounts B ! i)\<lparr>balance := b\<rparr>]\<rparr>"

definition recordFail :: "string \<Rightarrow> Bank \<Rightarrow> error + Bank" where
  "recordFail message B =
     (if bank_lock B then Inl Blocked
      else seq (int_incr (num_fail B)) (\<lambda>n.
        Inr (B\<lparr>cout := cout B @ [message], num_fail := n, bank_lock := False\<rparr>)))"

definition recordSucc :: "string \<Rightarrow> Bank \<Rightarrow> error + Bank" where
  "recordSucc message B =
     (if bank_lock B then Inl Blocked
      else seq (int_incr (num_succ B)) (\<lambda>n.
        Inr (B\<lparr>cout := cout B @ [message], num_succ := n, bank_lock := False\<rparr>)))"

text \<open>\<^verbatim>\<open>Bank::Bank(int N)\<close>: \<open>N\<close> accounts, ids \<open>0 .. N-1\<close>, balance 0, every mutex free.\<close>

definition Bank_init :: "int \<Rightarrow> error + Bank" where
  "Bank_init N =
     (if N < 0 then Inl BadArrayLength
      else Inr \<lparr>num = N, num_succ = 0, num_fail = 0, bank_lock = False,
                accounts = map (\<lambda>i. \<lparr>accountID = i, balance = 0, lock = False\<rparr>) [0 ..< nat N],
                cout = []\<rparr>)"

text \<open>\<^verbatim>\<open>Bank::deposit\<close>. The result pairs the returned \<^verbatim>\<open>int\<close> with the bank.\<close>

definition deposit :: "int \<Rightarrow> int \<Rightarrow> int \<Rightarrow> int \<Rightarrow> Bank \<Rightarrow> error + (int \<times> Bank)" where
  "deposit workerID ledgerID accID amount B =
     seq (account_at B accID) (\<lambda>current.
     seq (lock_account current B) (\<lambda>B1.
     seq (long_of (balance (accounts B1 ! current) + amount)) (\<lambda>b.
     seq (recordSucc (DEPOSITE_MSG SUCC workerID ledgerID accID amount)
            (set_balance current b B1)) (\<lambda>B2.
     Inr (0, unlock_account current B2)))))"

text \<open>\<^verbatim>\<open>Bank::withdraw\<close>.\<close>

definition withdraw :: "int \<Rightarrow> int \<Rightarrow> int \<Rightarrow> int \<Rightarrow> Bank \<Rightarrow> error + (int \<times> Bank)" where
  "withdraw workerID ledgerID accID amount B =
     seq (account_at B accID) (\<lambda>current.
     seq (lock_account current B) (\<lambda>B1.
     seq (if amount \<le> balance (accounts B1 ! current)
          then seq (long_of (balance (accounts B1 ! current) - amount)) (\<lambda>b.
               seq (recordSucc (WITHDRAW_MSG SUCC workerID ledgerID accID amount)
                      (set_balance current b B1)) (\<lambda>B2.
               Inr (0, B2)))
          else seq (recordFail (WITHDRAW_MSG ERR workerID ledgerID accID amount) B1) (\<lambda>B2.
               Inr (- 1, B2)))
       (\<lambda>(successful, B3).
     Inr (successful, unlock_account current B3))))"

text \<open>
  \<^verbatim>\<open>Bank::transfer\<close>. \<^verbatim>\<open>amount\<close> is \<^verbatim>\<open>unsigned int\<close>, a \<open>nat\<close> here; the comparison
  with the \<^verbatim>\<open>long\<close> balance and the two updates are done in \<^verbatim>\<open>long\<close>. The source
  mutex is taken before the test \<^verbatim>\<open>srcID == destID\<close>, and the \<^verbatim>\<open>return -1\<close> of that
  test comes before the \<^verbatim>\<open>pthread_mutex_unlock\<close> and before any \<^verbatim>\<open>recordFail\<close>.
\<close>

definition transfer :: "int \<Rightarrow> int \<Rightarrow> int \<Rightarrow> int \<Rightarrow> nat \<Rightarrow> Bank \<Rightarrow> error + (int \<times> Bank)" where
  "transfer workerID ledgerID srcID destID amount B =
     seq (account_at B srcID) (\<lambda>source.
     seq (account_at B destID) (\<lambda>destination.
     seq (lock_account source B) (\<lambda>B1.
     if srcID = destID then Inr (- 1, B1)
     else
     seq (if srcID < destID
          then seq (lock_account source (unlock_account source B1)) (lock_account destination)
          else seq (lock_account destination (unlock_account source B1)) (lock_account source))
       (\<lambda>B2.
     seq (if int amount \<le> balance (accounts B2 ! source)
          then seq (long_of (balance (accounts B2 ! source) - int amount)) (\<lambda>s.
               seq (long_of (balance (accounts (set_balance source s B2) ! destination)
                      + int amount)) (\<lambda>d.
               seq (recordSucc (TRANSFER_MSG SUCC workerID ledgerID srcID destID (int amount))
                      (set_balance destination d (set_balance source s B2))) (\<lambda>B3.
               Inr (0, B3))))
          else seq (recordFail (TRANSFER_MSG ERR workerID ledgerID srcID destID (int amount)) B2)
                 (\<lambda>B3.
               Inr (- 1, B3)))
       (\<lambda>(successful, B4).
     Inr (successful,
       if srcID < destID then unlock_account source (unlock_account destination B4)
       else unlock_account destination (unlock_account source B4)))))))"

text \<open>
  \<^verbatim>\<open>Bank::print_account\<close>. The loop \<^verbatim>\<open>for (int i = 0; i < num; i++)\<close> runs over the
  list of its indices; each round takes the mutex of \<^verbatim>\<open>accounts[i]\<close>, writes the
  line \<^verbatim>\<open>ID# <accountID> | <balance>\<close> and releases the mutex. The totals are
  then written under \<^verbatim>\<open>bank_lock\<close>.
\<close>

fun print_account_loop :: "nat list \<Rightarrow> Bank \<Rightarrow> error + Bank" where
  "print_account_loop [] B = Inr B"
| "print_account_loop (i # rest) B =
     seq (account_at B (int i)) (\<lambda>k.
     seq (lock_account k B) (\<lambda>B1.
     print_account_loop rest
       (unlock_account k
          (B1\<lparr>cout := cout B1 @
             [''ID# '' @ string_of_nat (accountID (accounts B1 ! k)) @ '' | '' @
                to_string (balance (accounts B1 ! k))]\<rparr>))))"

definition print_account :: "Bank \<Rightarrow> error + Bank" where
  "print_account B =
     seq (print_account_loop [0 ..< nat (num B)] B) (\<lambda>B1.
     if bank_lock B1 then Inl Blocked
     else Inr (B1\<lparr>cout := cout B1 @
                 [''Success: '' @ to_string (num_succ B1) @ '' Fails: '' @
                    to_string (num_fail B1)],
               bank_lock := False\<rparr>))"

section \<open>The worker\<close>

text \<open>
  Modelled from the spec: \<^verbatim>\<open>include/ledger.h\<close>, which declares \<^verbatim>\<open>struct Ledger\<close> and
  the mode enumerators, is not among the sources. The fields are the ones
  \<^verbatim>\<open>load_ledger\<close> and \<^verbatim>\<open>worker\<close> use (\<^verbatim>\<open>acc\<close>, \<^verbatim>\<open>other\<close>, \<^verbatim>\<open>amount\<close>, \<^verbatim>\<open>mode\<close>,
  \<^verbatim>\<open>ledgerID\<close>), integers as the comment of \<^verbatim>\<open>load_ledger\<close> says; the modes are
  deposit, withdraw and transfer.
\<close>

datatype Mode = D | W | T

record Ledger =
  acc :: int
  other :: int
  amount :: int
  mode :: Mode
  ledgerID :: int

text \<open>
  \<^verbatim>\<open>worker\<close> of \<^verbatim>\<open>src/src/ledger.cpp\<close>, run by one thread: the global list
  \<^verbatim>\<open>ledger\<close> is the list argument, \<^verbatim>\<open>ledger_lock\<close> the flag. Each round takes the
  front entry under \<^verbatim>\<open>ledger_lock\<close> and calls the bank, dropping the returned
  \<^verbatim>\<open>int\<close>. The \<^verbatim>\<open>int\<close> amount of the entry is converted to the
  \<^verbatim>\<open>unsigned int\<close> parameter of \<^verbatim>\<open>transfer\<close> modulo \<open>2^32\<close>.
\<close>

fun worker :: "int \<Rightarrow> bool \<Rightarrow> Ledger list \<Rightarrow> Bank \<Rightarrow> error + Bank" where
  "worker wid ledger_lock [] B = Inr B"
| "worker wid ledger_lock (current_entry # ledger) B =
     (if ledger_lock then Inl Blocked
      else seq (if mode current_entry = D
                then deposit wid (ledgerID current_entry) (acc current_entry)
                       (amount current_entry) B
                else if mode current_entry = W
                then withdraw wid (ledgerID current_entry) (acc current_entry)
                       (amount current_entry) B
                else transfer wid (ledgerID current_entry) (acc current_entry)
                       (other current_entry) (nat (amount current_entry mod 4294967296)) B)
             (\<lambda>(r, B'). worker wid False ledger B'))"

text \<open>
  \<^verbatim>\<open>InitBank\<close> with one worker on a ledger that \<^verbatim>\<open>load_ledger\<close> has filled: a bank
  of 10 accounts, then worker 0 until the ledger is empty (the \<^verbatim>\<open>pthread_join\<close>), then
  \<^verbatim>\<open>print_account\<close>.
\<close>

definition InitBank :: "Ledger list \<Rightarrow> error + Bank" where
  "InitBank ledger =
     seq (Bank_init 10) (\<lambda>bank.
     seq (worker 0 False ledger bank) (\<lambda>bank'.
     print_account bank'))"

section \<open>Sequences of calls on the public interface\<close>

datatype call =
  Deposit int int int int
  | Withdraw int int int int
  | Transfer int int int int nat

fun perform :: "call \<Rightarrow> Bank \<Rightarrow> error + (int \<times> Bank)" where
  "perform (Deposit w l a m) B = deposit w l a m B"
| "perform (Withdraw w l a m) B = withdraw w l a m B"
| "perform (Transfer w l s d m) B = transfer w l s d m B"

text \<open>The calls of a list one after another: the returned values and the final bank.\<close>

fun perform_all :: "call list \<Rightarrow> Bank \<Rightarrow> error + (int list \<times> Bank)" where
  "perform_all [] B = Inr ([], B)"
| "perform_all (c # cs) B =
     seq (perform c B) (\<lambda>(r, B').
     seq (perform_all cs B') (\<lambda>(rs, B'').
     Inr (r # rs, B'')))"

fun amount_of :: "call \<Rightarrow> int" where
  "amount_of (Deposit w l a m) = m"
| "amount_of (Withdraw w l a m) = m"
| "amount_of (Transfer w l s d m) = int m"

fun ids_of :: "call \<Rightarrow> int list" where
  "ids_of (Deposit w l a m) = [a]"
| "ids_of (Withdraw w l a m) = [a]"
| "ids_of (Transfer w l s d m) = [s, d]"

section \<open>Reading a bank\<close>

text \<open>An account id that \<^verbatim>\<open>accounts[i]\<close> can be used with.\<close>

definition in_range :: "Bank \<Rightarrow> int \<Rightarrow> bool" where
  "in_range B i = (0 \<le> i \<and> i < int (length (accounts B)))"

text \<open>\<^verbatim>\<open>accounts[i].balance\<close> and \<^verbatim>\<open>accounts[i].lock\<close> for an id in range.\<close>

definition balanceOf :: "Bank \<Rightarrow> int \<Rightarrow> int" where
  "balanceOf B i = balance (accounts B ! nat i)"

definition held :: "Bank \<Rightarrow> int \<Rightarrow> bool" where
  "held B i = lock (accounts B ! nat i)"

text \<open>
  The bank that \<^verbatim>\<open>new Bank(N)\<close> yields, for closed statements (\<open>0 \<le> N\<close>).
\<close>

definition new_Bank :: "int \<Rightarrow> Bank" where
  "new_Bank N = projr (Bank_init N)"

text \<open>
  Scenario (1) of the specification, for closed statements: \<^verbatim>\<open>Bank(10)\<close> after
  \<^verbatim>\<open>deposit(acc=0, amount=100)\<close>.
\<close>

definition bank_100 :: Bank where
  "bank_100 = snd (projr (deposit 0 0 0 100 (new_Bank 10)))"

text \<open>
  Deposits into one account \<open>a\<close>, each with its worker id, ledger id and amount,
  and the amounts deposited.
\<close>

definition deposits_into :: "int \<Rightarrow> (int \<times> int \<times> int) list \<Rightarrow> call list" where
  "deposits_into a xs = map (\<lambda>(w, l, m). Deposit w l a m) xs"

definition deposited :: "(int \<times> int \<times> int) list \<Rightarrow> int list" where
  "deposited xs = map (\<lambda>(w, l, m). m) xs"

text \<open>
  The behaviour of a self-transfer in the words of the specification: the call
  returns failure, no mutex is taken (every account mutex is as before) and no
  balance changes.
\<close>

definition self_transfer_untouched :: "int \<Rightarrow> int \<Rightarrow> int \<Rightarrow> nat \<Rightarrow> Bank \<Rightarrow> bool" where
  "self_transfer_untouched w l s m B =
     (case transfer w l s s m B of
        Inl e \<Rightarrow> False
      | Inr (r, B') \<Rightarrow> r = - 1 \<and> map lock (accounts B') = map lock (accounts B)
          \<and> map balance (accounts B') = map balance (accounts B))"

section \<open>The operations in closed form\<close>

lemma seq_Inl [simp]: "seq (Inl e) f = Inl e"
  by (simp add: seq_def)

lemma seq_Inr [simp]: "seq (Inr x) f = f x"
  by (simp add: seq_def)

lemmas op_defs = account_at_def lock_account_def long_of_def recordSucc_def recordFail_def
  int_incr_def set_balance_def unlock_account_def

lemmas read_defs = in_range_def balanceOf_def held_def

text \<open>
  Each operation as a decision list over the bank it starts from: which outcome it
  has, and the bank it returns.
\<close>

lemma deposit_eq:
  "deposit w l a m B =
    (if \<not> in_range B a then Inl OutOfBounds
     else if held B a then Inl Blocked
     else if \<not> in_long (balanceOf B a + m) then Inl SignedOverflow
     else if bank_lock B then Inl Blocked
     else if \<not> num_succ B < INT_MAX then Inl SignedOverflow
     else Inr (0, B\<lparr>accounts := (accounts B)
                [nat a := (accounts B ! nat a)\<lparr>balance := balanceOf B a + m, lock := False\<rparr>],
              cout := cout B @ [DEPOSITE_MSG SUCC w l a m],
              num_succ := num_succ B + 1, bank_lock := False\<rparr>))"
proof (cases "in_range B a")
  case False
  then show ?thesis
    by (auto simp: deposit_def account_at_def in_range_def)
next
  case True
  then have "0 \<le> a" and "a < int (length (accounts B))"
    by (simp_all add: in_range_def)
  with True show ?thesis
    by (simp add: deposit_def op_defs balanceOf_def held_def)
qed

lemma withdraw_eq:
  "withdraw w l a m B =
    (if \<not> in_range B a then Inl OutOfBounds
     else if held B a then Inl Blocked
     else if m \<le> balanceOf B a
       then if \<not> in_long (balanceOf B a - m) then Inl SignedOverflow
            else if bank_lock B then Inl Blocked
            else if \<not> num_succ B < INT_MAX then Inl SignedOverflow
            else Inr (0, B\<lparr>accounts := (accounts B)
                [nat a := (accounts B ! nat a)\<lparr>balance := balanceOf B a - m, lock := False\<rparr>],
              cout := cout B @ [WITHDRAW_MSG SUCC w l a m],
              num_succ := num_succ B + 1, bank_lock := False\<rparr>)
     else if bank_lock B then Inl Blocked
     else if \<not> num_fail B < INT_MAX then Inl SignedOverflow
     else Inr (- 1, B\<lparr>accounts := (accounts B)
                [nat a := (accounts B ! nat a)\<lparr>lock := False\<rparr>],
              cout := cout B @ [WITHDRAW_MSG ERR w l a m],
              num_fail := num_fail B + 1, bank_lock := False\<rparr>))"
proof (cases "in_range B a")
  case False
  then show ?thesis
    by (auto simp: withdraw_def account_at_def in_range_def)
next
  case True
  then have "0 \<le> a" and "a < int (length (accounts B))"
    by (simp_all add: in_range_def)
  with True show ?thesis
    by (simp add: withdraw_def op_defs balanceOf_def held_def)
qed

lemma transfer_eq:
  "transfer w l s d m B =
    (if \<not> in_range B s \<or> \<not> in_range B d then Inl OutOfBounds
     else if held B s then Inl Blocked
     else if s = d
       then Inr (- 1, B\<lparr>accounts := (accounts B)[nat s := (accounts B ! nat s)\<lparr>lock := True\<rparr>]\<rparr>)
     else if held B d then Inl Blocked
     else if int m \<le> balanceOf B s
       then if \<not> in_long (balanceOf B s - int m) \<or> \<not> in_long (balanceOf B d + int m)
            then Inl SignedOverflow
            else if bank_lock B then Inl Blocked
            else if \<not> num_succ B < INT_MAX then Inl SignedOverflow
            else Inr (0, B\<lparr>accounts := (accounts B)
                [nat s := (accounts B ! nat s)\<lparr>balance := balanceOf B s - int m, lock := False\<rparr>,
                 nat d := (accounts B ! nat d)\<lparr>balance := balanceOf B d + int m, lock := False\<rparr>],
              cout := cout B @ [TRANSFER_MSG SUCC w l s d (int m)],
              num_succ := num_succ B + 1, bank_lock := False\<rparr>)
     else if bank_lock B then Inl Blocked
     else if \<not> num_fail B < INT_MAX then Inl SignedOverflow
     else Inr (- 1, B\<lparr>accounts := (accounts B)
                [nat s := (accounts B ! nat s)\<lparr>lock := False\<rparr>,
                 nat d := (accounts B ! nat d)\<lparr>lock := False\<rparr>],
              cout := cout B @ [TRANSFER_MSG ERR w l s d (int m)],
              num_fail := num_fail B + 1, bank_lock := False\<rparr>))"
proof (cases "in_range B s \<and> in_range B d")
  case False
  then show ?thesis
    by (auto simp: transfer_def account_at_def in_range_def)
next
  case both: True
  then have r: "0 \<le> s" "s < int (length (accounts B))" "0 \<le> d" "d < int (length (accounts B))"
    by (simp_all add: in_range_def)
  show ?thesis
  proof (cases "s = d")
    case True
    with r both show ?thesis
      by (simp add: transfer_def account_at_def lock_account_def read_defs)
  next
    case diff: False
    then have ne: "nat s \<noteq> nat d" "nat d \<noteq> nat s"
      using r by simp_all
    show ?thesis
    proof (cases "s < d")
      case True
      with r ne diff both show ?thesis
        by (simp add: transfer_def op_defs read_defs list_update_swap [of "nat s" "nat d"])
    next
      case False
      with r ne diff both show ?thesis
        by (simp add: transfer_def op_defs read_defs list_update_swap [of "nat s" "nat d"])
    qed
  qed
qed

lemma map_update_same:
  assumes "f y = f (xs ! i)"
  shows "map f (xs[i := y]) = map f xs"
proof (cases "i < length xs")
  case True
  then have "(map f xs)[i := f (xs ! i)] = (map f xs)[i := map f xs ! i]"
    by simp
  with assms show ?thesis
    by (simp add: map_update)
next
  case False
  then have "xs[i := y] = xs"
    by (intro list_update_beyond) simp
  then show ?thesis
    by simp
qed

lemma in_range_nat: "in_range B i \<Longrightarrow> nat i < length (accounts B)"
  by (simp add: in_range_def nat_less_iff)

lemma in_range_nat_neq:
  "in_range B i \<Longrightarrow> in_range B j \<Longrightarrow> i \<noteq> j \<Longrightarrow> nat i \<noteq> nat j"
  by (simp add: in_range_def eq_nat_nat_iff)

lemma ball_update:
  assumes "\<forall>x\<in>set xs. P x" and "P y"
  shows "\<forall>x\<in>set (xs[i := y]). P x"
  using assms set_update_subset_insert [of xs i y] by auto

lemma seq_eq_Inr: "seq m f = Inr y \<longleftrightarrow> (\<exists>x. m = Inr x \<and> f x = Inr y)"
  by (cases m) simp_all

lemma Bank_init_Inr:
  assumes "Bank_init N = Inr B"
  shows "0 \<le> N" and "length (accounts B) = nat N" and "num_succ B = 0" and "num_fail B = 0"
    and "\<not> bank_lock B" and "cout B = []"
    and "\<forall>a\<in>set (accounts B). balance a = 0 \<and> \<not> lock a"
  using assms by (auto simp: Bank_init_def split: if_splits)

text \<open>What a call that returns has done to the accounts.\<close>

lemma deposit_Inr:
  assumes "deposit w l a m B = Inr (r, B')"
  shows "in_range B a"
    and "accounts B' = (accounts B)
           [nat a := (accounts B ! nat a)\<lparr>balance := balanceOf B a + m, lock := False\<rparr>]"
  using assms by (auto simp: deposit_eq split: if_splits)

lemma withdraw_Inr:
  assumes "withdraw w l a m B = Inr (r, B')"
  shows "in_range B a"
    and "accounts B' = (accounts B)
           [nat a := (accounts B ! nat a)\<lparr>balance := balanceOf B a - m, lock := False\<rparr>]
         \<and> m \<le> balanceOf B a
      \<or> accounts B' = (accounts B)[nat a := (accounts B ! nat a)\<lparr>lock := False\<rparr>]"
  using assms by (auto simp: withdraw_eq split: if_splits)

lemma transfer_Inr:
  assumes "transfer w l s d m B = Inr (r, B')"
  shows "in_range B s" and "in_range B d"
    and "accounts B' = (accounts B)
           [nat s := (accounts B ! nat s)\<lparr>balance := balanceOf B s - int m, lock := False\<rparr>,
            nat d := (accounts B ! nat d)\<lparr>balance := balanceOf B d + int m, lock := False\<rparr>]
         \<and> int m \<le> balanceOf B s
      \<or> accounts B' = (accounts B)[nat s := (accounts B ! nat s)\<lparr>lock := True\<rparr>]
      \<or> accounts B' = (accounts B)[nat s := (accounts B ! nat s)\<lparr>lock := False\<rparr>,
                 nat d := (accounts B ! nat d)\<lparr>lock := False\<rparr>]"
  using assms by (auto simp: transfer_eq split: if_splits)

lemma perform_all_Cons_Inr:
  assumes "perform_all (c # cs) B = Inr (rs, B')"
  obtains r B1 rs1 where "perform c B = Inr (r, B1)" and "perform_all cs B1 = Inr (rs1, B')"
    and "rs = r # rs1"
  using assms by (auto simp: seq_eq_Inr)

section \<open>Self-transfers\<close>

text \<open>
  Claim C1, as amended. A transfer whose source and destination ids are equal (and in
  range) takes the source account's mutex before it compares the two ids: with that
  mutex held the call does not return, and with it free the call returns failure
  (\<open>-1\<close>) and every account balance is as before.
\<close>

theorem transfer_self_fails:
  assumes "in_range B s"
  shows "(held B s \<longrightarrow> transfer w l s s m B = Inl Blocked) \<and>
    (\<not> held B s \<longrightarrow> (\<exists>B'. transfer w l s s m B = Inr (- 1, B')
        \<and> map balance (accounts B') = map balance (accounts B)))"
  using assms by (simp add: transfer_eq map_update_same)

theorem transfer_self_fails_witness:
  "(\<exists>B'. transfer 0 0 2 2 10 (new_Bank 10) = Inr (- 1, B')
        \<and> map balance (accounts B') = map balance (accounts (new_Bank 10))) \<and>
   transfer 1 1 2 2 10 (snd (projr (transfer 0 0 2 2 10 (new_Bank 10)))) = Inl Blocked"
proof -
  let ?B = "snd (projr (transfer 0 0 2 2 10 (new_Bank 10)))"
  have r: "in_range (new_Bank 10) 2" "in_range ?B 2"
    by code_simp+
  have f: "\<not> held (new_Bank 10) 2"
    by code_simp
  have h: "held ?B 2"
    by code_simp
  from transfer_self_fails [OF r(1), of 0 0 10] transfer_self_fails [OF r(2), of 1 1 10] f h
  show ?thesis
    by blast
qed

text \<open>
  Claim C1 as the specification states it fails on a new bank of 10 accounts for the
  transfer from account 2 to account 2: the call returns with the mutex of account 2
  held, which was free before.
\<close>

theorem self_transfer_takes_lock:
  "\<not> self_transfer_untouched 0 0 2 10 (new_Bank 10)
   \<and> \<not> held (new_Bank 10) 2
   \<and> held (snd (projr (transfer 0 0 2 2 10 (new_Bank 10)))) 2"
  by code_simp

text \<open>
  Claim C2, evaluated: on a new bank of 10 accounts the transfer of 10 from account 2
  to account 2 returns \<open>-1\<close> with \<open>num_succ = 0\<close>, \<open>num_fail = 0\<close> and nothing
  written: the \<^verbatim>\<open>return -1\<close> of line 215 comes before any \<^verbatim>\<open>recordFail\<close>.
\<close>

theorem self_transfer_not_recorded:
  "map_sum id (\<lambda>(r, B). (r, num_succ B, num_fail B, cout B))
     (transfer 0 0 2 2 10 (new_Bank 10)) = Inr (- 1, 0, 0, [])"
  by code_simp

text \<open>
  Claim C3, evaluated: on a bank of 10 accounts, one worker on a ledger of three
  well-formed entries (deposit 100 into account 0, transfer 10 from account 2 to
  account 2, withdraw 150 from account 0) returns with one success and one failure
  recorded and two lines written: two records for three entries. The run of
  \<^verbatim>\<open>InitBank\<close> on this ledger then does not finish: \<^verbatim>\<open>print_account\<close> waits for
  the mutex of account 2, which the self-transfer left held.
\<close>

theorem worker_counts_two_of_three:
  "map_sum id (\<lambda>B. (num_succ B, num_fail B, length (cout B)))
     (seq (Bank_init 10)
        (worker 0 False
           [\<lparr>acc = 0, other = 0, amount = 100, mode = D, ledgerID = 0\<rparr>,
            \<lparr>acc = 2, other = 2, amount = 10, mode = T, ledgerID = 1\<rparr>,
            \<lparr>acc = 0, other = 0, amount = 150, mode = W, ledgerID = 2\<rparr>]))
     = Inr (1, 1, 2)
   \<and> InitBank [\<lparr>acc = 0, other = 0, amount = 100, mode = D, ledgerID = 0\<rparr>,
                \<lparr>acc = 2, other = 2, amount = 10, mode = T, ledgerID = 1\<rparr>,
                \<lparr>acc = 0, other = 0, amount = 150, mode = W, ledgerID = 2\<rparr>]
     = Inl Blocked"
  by code_simp

text \<open>
  Claim C8, evaluated: one worker on the ledger "transfer 10 from account 2 to account
  2, deposit 5 into account 2" does not finish. The transfer returns with the mutex of
  account 2 held, and the deposit waits for that mutex.
\<close>

theorem worker_blocks_after_self_transfer:
  "InitBank [\<lparr>acc = 2, other = 2, amount = 10, mode = T, ledgerID = 0\<rparr>,
             \<lparr>acc = 2, other = 0, amount = 5, mode = D, ledgerID = 1\<rparr>] = Inl Blocked"
  by code_simp

text \<open>
  The early return in general: a self-transfer on an account in range whose mutex is
  free returns \<open>-1\<close> with that mutex held, and with the counters and the output as
  they were.
\<close>

theorem self_transfer_keeps_lock:
  assumes "in_range B s" and "\<not> held B s"
  shows "\<exists>B'. transfer w l s s m B = Inr (- 1, B') \<and> held B' s
    \<and> num_succ B' = num_succ B \<and> num_fail B' = num_fail B \<and> cout B' = cout B"
  using assms in_range_nat [OF assms(1)]
  by (simp add: transfer_eq) (simp add: held_def)

theorem self_transfer_keeps_lock_witness:
  "\<exists>B'. transfer 0 0 2 2 10 (new_Bank 10) = Inr (- 1, B') \<and> held B' 2
    \<and> num_succ B' = 0 \<and> num_fail B' = 0 \<and> cout B' = []"
proof -
  have r: "in_range (new_Bank 10) 2"
    by code_simp
  have f: "\<not> held (new_Bank 10) 2"
    by code_simp
  have v: "num_succ (new_Bank 10) = 0" "num_fail (new_Bank 10) = 0" "cout (new_Bank 10) = []"
    by code_simp+
  from self_transfer_keeps_lock [OF r f, of 0 0 10] show ?thesis
    by (simp add: v)
qed

section \<open>Withdrawals and transfers\<close>

text \<open>
  Claim C4. A withdrawal of \<open>m\<close> from an account with balance \<open>b\<close> returns success
  (\<open>0\<close>) iff \<open>m \<le> b\<close>, and failure (\<open>-1\<close>) otherwise. On success the balance is
  \<open>b - m\<close> and one success is recorded; on failure the balance is \<open>b\<close> and one
  failure is recorded. The call is one that C++ defines: the id is in range, the two
  mutexes it takes are free, and neither the counters nor \<open>b - m\<close> overflow.
\<close>

theorem withdraw_iff_sufficient:
  assumes "in_range B a" and "\<not> held B a" and "\<not> bank_lock B"
    and "num_succ B < INT_MAX" and "num_fail B < INT_MAX"
    and "balanceOf B a - m \<le> LONG_MAX"
  shows "\<exists>B'. withdraw w l a m B = Inr (if m \<le> balanceOf B a then 0 else - 1, B')
    \<and> balanceOf B' a = (if m \<le> balanceOf B a then balanceOf B a - m else balanceOf B a)
    \<and> num_succ B' = (if m \<le> balanceOf B a then num_succ B + 1 else num_succ B)
    \<and> num_fail B' = (if m \<le> balanceOf B a then num_fail B else num_fail B + 1)
    \<and> length (cout B') = length (cout B) + 1"
proof (cases "m \<le> balanceOf B a")
  case True
  with assms have "in_long (balanceOf B a - m)"
    by (simp add: in_long_def LONG_MIN_def)
  with True assms in_range_nat [OF assms(1)] show ?thesis
    by (simp add: withdraw_eq) (simp add: balanceOf_def)
next
  case False
  with assms in_range_nat [OF assms(1)] show ?thesis
    by (simp add: withdraw_eq) (simp add: balanceOf_def)
qed

theorem withdraw_iff_sufficient_witness:
  "(\<exists>B'. withdraw 1 1 0 150 bank_100 = Inr (- 1, B') \<and> balanceOf B' 0 = 100
      \<and> num_succ B' = 1 \<and> num_fail B' = 1) \<and>
   (\<exists>B'. withdraw 1 1 0 30 bank_100 = Inr (0, B') \<and> balanceOf B' 0 = 70
      \<and> num_succ B' = 2 \<and> num_fail B' = 0)"
proof -
  have h: "in_range bank_100 0" "\<not> held bank_100 0" "\<not> bank_lock bank_100"
    "num_succ bank_100 < INT_MAX" "num_fail bank_100 < INT_MAX"
    by code_simp+
  have v: "balanceOf bank_100 0 = 100" "num_succ bank_100 = 1" "num_fail bank_100 = 0"
    by code_simp+
  have o: "balanceOf bank_100 0 - 150 \<le> LONG_MAX" "balanceOf bank_100 0 - 30 \<le> LONG_MAX"
    by code_simp+
  from withdraw_iff_sufficient [OF h o(1), of 1 1] withdraw_iff_sufficient [OF h o(2), of 1 1]
  show ?thesis
    by (auto simp: v)
qed

text \<open>
  Claim C5. A transfer of \<open>m\<close> between two different accounts with balances \<open>s\<close>
  (source) and \<open>d\<close> (destination) returns success iff \<open>m \<le> s\<close>. On success the
  balances are \<open>s - m\<close> and \<open>d + m\<close>, on failure \<open>s\<close> and \<open>d\<close>; their sum is the
  same in both cases. The call is one that C++ defines: ids in range, the mutexes free,
  both balances values of \<^verbatim>\<open>long\<close>, and neither the counters nor \<open>d + m\<close> overflow.
\<close>

theorem transfer_iff_sufficient:
  assumes "in_range B s" and "in_range B d" and "s \<noteq> d"
    and "\<not> held B s" and "\<not> held B d" and "\<not> bank_lock B"
    and "num_succ B < INT_MAX" and "num_fail B < INT_MAX"
    and "in_long (balanceOf B s)" and "in_long (balanceOf B d)"
    and "int m \<le> balanceOf B s \<longrightarrow> balanceOf B d + int m \<le> LONG_MAX"
  shows "\<exists>B'. transfer w l s d m B = Inr (if int m \<le> balanceOf B s then 0 else - 1, B')
    \<and> balanceOf B' s = (if int m \<le> balanceOf B s then balanceOf B s - int m else balanceOf B s)
    \<and> balanceOf B' d = (if int m \<le> balanceOf B s then balanceOf B d + int m else balanceOf B d)
    \<and> balanceOf B' s + balanceOf B' d = balanceOf B s + balanceOf B d"
proof -
  from assms have ne: "nat s \<noteq> nat d" "nat s < length (accounts B)" "nat d < length (accounts B)"
    by (simp_all add: in_range_nat in_range_nat_neq)
  show ?thesis
  proof (cases "int m \<le> balanceOf B s")
    case True
    with assms have "in_long (balanceOf B s - int m)" and "in_long (balanceOf B d + int m)"
      by (simp_all add: in_long_def LONG_MIN_def)
    with True assms ne show ?thesis
      by (simp add: transfer_eq) (simp add: balanceOf_def)
  next
    case False
    with assms ne show ?thesis
      by (simp add: transfer_eq) (simp add: balanceOf_def)
  qed
qed

theorem transfer_iff_sufficient_witness:
  "(\<exists>B'. transfer 2 2 0 1 50 bank_100 = Inr (0, B') \<and> balanceOf B' 0 = 50
      \<and> balanceOf B' 1 = 50) \<and>
   (\<exists>B'. transfer 2 2 1 0 50 bank_100 = Inr (- 1, B') \<and> balanceOf B' 1 = 0
      \<and> balanceOf B' 0 = 100)"
proof -
  have r: "in_range bank_100 0" "in_range bank_100 1"
    by code_simp+
  have f: "\<not> held bank_100 0" "\<not> held bank_100 1"
    by code_simp+
  have c: "\<not> bank_lock bank_100" "num_succ bank_100 < INT_MAX" "num_fail bank_100 < INT_MAX"
    by code_simp+
  have v: "balanceOf bank_100 0 = 100" "balanceOf bank_100 1 = 0"
    by code_simp+
  have l: "in_long (balanceOf bank_100 0)" "in_long (balanceOf bank_100 1)"
    by code_simp+
  have o: "int 50 \<le> balanceOf bank_100 0 \<longrightarrow> balanceOf bank_100 1 + int 50 \<le> LONG_MAX"
    "int 50 \<le> balanceOf bank_100 1 \<longrightarrow> balanceOf bank_100 0 + int 50 \<le> LONG_MAX"
    by (simp_all add: v LONG_MAX_def)
  have n: "(0::int) \<noteq> 1" "(1::int) \<noteq> 0"
    by simp_all
  from transfer_iff_sufficient [OF r(1) r(2) n(1) f(1) f(2) c l(1) l(2) o(1), of 2 2]
    transfer_iff_sufficient [OF r(2) r(1) n(2) f(2) f(1) c l(2) l(1) o(2), of 2 2]
  show ?thesis
    by (auto simp: v)
qed

section \<open>Deposits\<close>

lemma deposit_returns:
  assumes "in_range B a" and "\<not> held B a" and "\<not> bank_lock B"
    and "num_succ B < INT_MAX" and "in_long (balanceOf B a + m)"
  shows "\<exists>B'. deposit w l a m B = Inr (0, B') \<and> balanceOf B' a = balanceOf B a + m
    \<and> num_succ B' = num_succ B + 1 \<and> num_fail B' = num_fail B
    \<and> cout B' = cout B @ [DEPOSITE_MSG SUCC w l a m]
    \<and> in_range B' a \<and> \<not> held B' a \<and> \<not> bank_lock B'"
  using assms in_range_nat [OF assms(1)]
  by (simp add: deposit_eq) (simp add: read_defs)

lemma deposits_from:
  assumes "in_range B a" and "\<not> held B a" and "\<not> bank_lock B"
    and "num_succ B + int (length xs) \<le> INT_MAX"
    and "\<forall>k\<le>length xs. in_long (balanceOf B a + sum_list (take k (deposited xs)))"
  shows "\<exists>B'. perform_all (deposits_into a xs) B = Inr (replicate (length xs) 0, B')
    \<and> balanceOf B' a = balanceOf B a + sum_list (deposited xs)
    \<and> num_succ B' = num_succ B + int (length xs) \<and> num_fail B' = num_fail B"
  using assms
proof (induction xs arbitrary: B)
  case Nil
  then show ?case
    by (simp add: deposits_into_def deposited_def)
next
  case (Cons x xs)
  obtain w l m where x: "x = (w, l, m)"
    by (cases x) auto
  have "Suc 0 \<le> length (x # xs)"
    by simp
  with Cons.prems(5) have "in_long (balanceOf B a + sum_list (take (Suc 0) (deposited (x # xs))))"
    by blast
  then have first: "in_long (balanceOf B a + m)"
    by (simp add: x deposited_def)
  from Cons.prems(4) have "num_succ B < INT_MAX"
    by simp
  from deposit_returns [OF Cons.prems(1-3) this first, of w l]
  obtain B1 where B1: "deposit w l a m B = Inr (0, B1)" "balanceOf B1 a = balanceOf B a + m"
    "num_succ B1 = num_succ B + 1" "num_fail B1 = num_fail B"
    "in_range B1 a" "\<not> held B1 a" "\<not> bank_lock B1"
    by blast
  have rest: "\<forall>k\<le>length xs. in_long (balanceOf B1 a + sum_list (take k (deposited xs)))"
  proof (intro allI impI)
    fix k
    assume "k \<le> length xs"
    then have "Suc k \<le> length (x # xs)"
      by simp
    with Cons.prems(5) have "in_long (balanceOf B a + sum_list (take (Suc k) (deposited (x # xs))))"
      by blast
    then show "in_long (balanceOf B1 a + sum_list (take k (deposited xs)))"
      by (simp add: x deposited_def B1(2) add.assoc)
  qed
  from Cons.prems(4) B1(3) have "num_succ B1 + int (length xs) \<le> INT_MAX"
    by simp
  from Cons.IH [OF B1(5-7) this rest]
  obtain B' where B': "perform_all (deposits_into a xs) B1 = Inr (replicate (length xs) 0, B')"
    "balanceOf B' a = balanceOf B1 a + sum_list (deposited xs)"
    "num_succ B' = num_succ B1 + int (length xs)" "num_fail B' = num_fail B1"
    by blast
  have "perform_all (deposits_into a (x # xs)) B = Inr (replicate (length (x # xs)) 0, B')"
    using B1(1) B'(1) by (simp add: x deposits_into_def)
  moreover have "balanceOf B' a = balanceOf B a + sum_list (deposited (x # xs))"
    using B'(2) B1(2) by (simp add: x deposited_def)
  moreover have "num_succ B' = num_succ B + int (length (x # xs))"
    using B'(3) B1(3) by simp
  moreover have "num_fail B' = num_fail B"
    using B'(4) B1(4) by simp
  ultimately show ?case
    by blast
qed

lemma Bank_init_ready:
  assumes "Bank_init N = Inr B" and "0 \<le> a" and "a < N"
  shows "in_range B a" and "\<not> held B a" and "balanceOf B a = 0"
proof -
  from Bank_init_Inr(2) [OF assms(1)] assms(2,3) show r: "in_range B a"
    by (simp add: in_range_def)
  from in_range_nat [OF r] have "accounts B ! nat a \<in> set (accounts B)"
    by simp
  with Bank_init_Inr(7) [OF assms(1)] show "\<not> held B a" and "balanceOf B a = 0"
    by (simp_all add: held_def balanceOf_def)
qed


text \<open>
  Claim C6. A deposit returns success (\<open>0\<close>), adds the amount to the balance, and
  records one success and no failure; and on a new bank, a sequence of deposits into
  one account returns success each time and leaves the sum of the deposited amounts
  as the balance, with one success recorded per deposit. The calls are ones that C++
  defines: the id is in range, the mutexes are free, and neither the balance (at any
  point of the sequence) nor the success counter overflows.
\<close>

theorem deposit_succeeds_and_sums:
  "(in_range B a \<and> \<not> held B a \<and> \<not> bank_lock B \<and> num_succ B < INT_MAX
      \<and> in_long (balanceOf B a + m) \<longrightarrow>
    (\<exists>B'. deposit w l a m B = Inr (0, B') \<and> balanceOf B' a = balanceOf B a + m
      \<and> num_succ B' = num_succ B + 1 \<and> num_fail B' = num_fail B
      \<and> cout B' = cout B @ [DEPOSITE_MSG SUCC w l a m])) \<and>
   (Bank_init N = Inr B0 \<and> 0 \<le> i \<and> i < N \<and> int (length xs) \<le> INT_MAX
      \<and> (\<forall>k\<le>length xs. in_long (sum_list (take k (deposited xs)))) \<longrightarrow>
    (\<exists>B'. perform_all (deposits_into i xs) B0 = Inr (replicate (length xs) 0, B')
      \<and> balanceOf B' i = sum_list (deposited xs)
      \<and> num_succ B' = int (length xs) \<and> num_fail B' = 0))"
proof (intro conjI impI)
  assume "in_range B a \<and> \<not> held B a \<and> \<not> bank_lock B \<and> num_succ B < INT_MAX
      \<and> in_long (balanceOf B a + m)"
  then have "in_range B a" "\<not> held B a" "\<not> bank_lock B" "num_succ B < INT_MAX"
      "in_long (balanceOf B a + m)"
    by simp_all
  from deposit_returns [OF this, of w l]
  show "\<exists>B'. deposit w l a m B = Inr (0, B') \<and> balanceOf B' a = balanceOf B a + m
      \<and> num_succ B' = num_succ B + 1 \<and> num_fail B' = num_fail B
      \<and> cout B' = cout B @ [DEPOSITE_MSG SUCC w l a m]"
    by blast
next
  assume h: "Bank_init N = Inr B0 \<and> 0 \<le> i \<and> i < N \<and> int (length xs) \<le> INT_MAX
      \<and> (\<forall>k\<le>length xs. in_long (sum_list (take k (deposited xs))))"
  then have init: "Bank_init N = Inr B0" and i: "0 \<le> i" "i < N"
    by simp_all
  note ready = Bank_init_ready [OF init i]
  note fresh = Bank_init_Inr [OF init]
  from h fresh(3) have n: "num_succ B0 + int (length xs) \<le> INT_MAX"
    by simp
  from h ready(3)
  have s: "\<forall>k\<le>length xs. in_long (balanceOf B0 i + sum_list (take k (deposited xs)))"
    by simp
  from deposits_from [OF ready(1,2) fresh(5) n s] ready(3) fresh(3,4)
  show "\<exists>B'. perform_all (deposits_into i xs) B0 = Inr (replicate (length xs) 0, B')
      \<and> balanceOf B' i = sum_list (deposited xs)
      \<and> num_succ B' = int (length xs) \<and> num_fail B' = 0"
    by simp
qed


theorem deposit_succeeds_and_sums_witness:
  "(\<exists>B'. deposit 0 0 0 100 (new_Bank 10) = Inr (0, B') \<and> balanceOf B' 0 = 100
      \<and> num_succ B' = 1 \<and> num_fail B' = 0) \<and>
   (\<exists>B'. perform_all (deposits_into 3 [(0, 0, 5), (1, 1, 7), (0, 2, 30)]) (new_Bank 10)
        = Inr ([0, 0, 0], B')
      \<and> balanceOf B' 3 = 42 \<and> num_succ B' = 3 \<and> num_fail B' = 0)"
proof -
  let ?xs = "[(0 :: int, 0 :: int, 5 :: int), (1, 1, 7), (0, 2, 30)]"
  have one: "in_range (new_Bank 10) 0 \<and> \<not> held (new_Bank 10) 0 \<and> \<not> bank_lock (new_Bank 10)
      \<and> num_succ (new_Bank 10) < INT_MAX \<and> in_long (balanceOf (new_Bank 10) 0 + 100)"
    by code_simp
  have v: "balanceOf (new_Bank 10) 0 = 0" "num_succ (new_Bank 10) = 0"
    "num_fail (new_Bank 10) = 0"
    by code_simp+
  have pre: "\<forall>k\<le>length ?xs. in_long (sum_list (take k (deposited ?xs)))"
  proof (intro allI impI)
    fix k :: nat
    assume "k \<le> length ?xs"
    then consider "k = 0" | "k = 1" | "k = 2" | "k = 3"
      by (auto simp: le_Suc_eq)
    then show "in_long (sum_list (take k (deposited ?xs)))"
      by cases (simp_all add: deposited_def in_long_def LONG_MIN_def LONG_MAX_def)
  qed
  have many: "Bank_init 10 = Inr (new_Bank 10) \<and> (0 :: int) \<le> 3 \<and> (3 :: int) < 10
      \<and> int (length ?xs) \<le> INT_MAX"
    by code_simp
  from deposit_succeeds_and_sums [of "new_Bank 10" 0 100 0 0 10 "new_Bank 10" 3 ?xs]
    one many pre
  show ?thesis
    by (auto simp: v deposited_def)
qed

section \<open>Amounts of either sign\<close>

text \<open>
  Claim C9. Neither \<^verbatim>\<open>deposit\<close> nor \<^verbatim>\<open>withdraw\<close> looks at the sign of the amount.
  A deposit of a negative amount returns success and the balance is lower than before
  (below zero when it started at zero); a withdrawal of a negative amount from a
  balance that is not negative returns success and the balance is higher than before.
  The calls are ones that C++ defines (id in range, mutexes free, no overflow of the
  counter or of the new balance).
\<close>

theorem negative_amounts_accepted:
  assumes "in_range B a" and "\<not> held B a" and "\<not> bank_lock B" and "num_succ B < INT_MAX"
    and "m < 0"
  shows "(in_long (balanceOf B a + m) \<longrightarrow>
      (\<exists>B'. deposit w l a m B = Inr (0, B') \<and> balanceOf B' a = balanceOf B a + m
         \<and> balanceOf B' a < balanceOf B a
         \<and> (balanceOf B a < - m \<longrightarrow> balanceOf B' a < 0))) \<and>
    (0 \<le> balanceOf B a \<and> balanceOf B a - m \<le> LONG_MAX \<longrightarrow>
      (\<exists>B'. withdraw w l a m B = Inr (0, B') \<and> balanceOf B' a = balanceOf B a - m
         \<and> balanceOf B a < balanceOf B' a))"
proof (intro conjI impI)
  assume "in_long (balanceOf B a + m)"
  from deposit_returns [OF assms(1-4) this, of w l] assms(5)
  show "\<exists>B'. deposit w l a m B = Inr (0, B') \<and> balanceOf B' a = balanceOf B a + m
         \<and> balanceOf B' a < balanceOf B a
         \<and> (balanceOf B a < - m \<longrightarrow> balanceOf B' a < 0)"
    by auto
next
  assume h: "0 \<le> balanceOf B a \<and> balanceOf B a - m \<le> LONG_MAX"
  with assms(5) have "m \<le> balanceOf B a" and "in_long (balanceOf B a - m)"
    by (simp_all add: in_long_def LONG_MIN_def)
  with assms in_range_nat [OF assms(1)]
  show "\<exists>B'. withdraw w l a m B = Inr (0, B') \<and> balanceOf B' a = balanceOf B a - m
         \<and> balanceOf B a < balanceOf B' a"
    by (simp add: withdraw_eq) (simp add: balanceOf_def)
qed

theorem negative_amounts_accepted_witness:
  "(\<exists>B'. deposit 0 0 3 (- 5) (new_Bank 10) = Inr (0, B') \<and> balanceOf B' 3 = - 5
      \<and> balanceOf B' 3 < 0) \<and>
   (\<exists>B'. withdraw 0 1 0 (- 20) bank_100 = Inr (0, B') \<and> balanceOf B' 0 = 120)"
proof -
  have n: "in_range (new_Bank 10) 3" "\<not> held (new_Bank 10) 3" "\<not> bank_lock (new_Bank 10)"
    "num_succ (new_Bank 10) < INT_MAX"
    by code_simp+
  have b: "in_range bank_100 0" "\<not> held bank_100 0" "\<not> bank_lock bank_100"
    "num_succ bank_100 < INT_MAX"
    by code_simp+
  have v: "balanceOf (new_Bank 10) 3 = 0" "balanceOf bank_100 0 = 100"
    by code_simp+
  have m: "(- 5 :: int) < 0" "(- 20 :: int) < 0"
    by simp_all
  have o: "in_long (balanceOf (new_Bank 10) 3 + - 5)"
    "0 \<le> balanceOf bank_100 0 \<and> balanceOf bank_100 0 - - 20 \<le> LONG_MAX"
    by (simp_all add: v in_long_def LONG_MIN_def LONG_MAX_def)
  from negative_amounts_accepted [OF n m(1), of 0 0] negative_amounts_accepted [OF b m(2), of 0 1] o
  show ?thesis
    by (auto simp: v)
qed

section \<open>Invariants of call sequences\<close>

lemma nonneg_at:
  assumes "\<forall>a\<in>set (accounts B). 0 \<le> balance a" and "in_range B i"
  shows "0 \<le> balanceOf B i"
  using assms in_range_nat [OF assms(2)] by (simp add: balanceOf_def)

lemma perform_nonneg:
  assumes "perform c B = Inr (r, B')" and "0 \<le> amount_of c"
    and inv: "\<forall>a\<in>set (accounts B). 0 \<le> balance a"
  shows "\<forall>a\<in>set (accounts B'). 0 \<le> balance a"
proof (cases c)
  case (Deposit w l a m)
  with assms(1) have d: "deposit w l a m B = Inr (r, B')"
    by simp
  from nonneg_at [OF inv deposit_Inr(1) [OF d]] assms(2) Deposit
  have "0 \<le> balance ((accounts B ! nat a)\<lparr>balance := balanceOf B a + m, lock := False\<rparr>)"
    by simp
  with inv show ?thesis
    unfolding deposit_Inr(2) [OF d] by (rule ball_update)
next
  case (Withdraw w l a m)
  with assms(1) have d: "withdraw w l a m B = Inr (r, B')"
    by simp
  note b = nonneg_at [OF inv withdraw_Inr(1) [OF d]]
  from withdraw_Inr(2) [OF d] show ?thesis
  proof
    assume *: "accounts B' = (accounts B)
           [nat a := (accounts B ! nat a)\<lparr>balance := balanceOf B a - m, lock := False\<rparr>]
         \<and> m \<le> balanceOf B a"
    then have "0 \<le> balance ((accounts B ! nat a)\<lparr>balance := balanceOf B a - m, lock := False\<rparr>)"
      by simp
    with inv show ?thesis
      unfolding conjunct1 [OF *] by (rule ball_update)
  next
    assume *: "accounts B' = (accounts B)[nat a := (accounts B ! nat a)\<lparr>lock := False\<rparr>]"
    from b have "0 \<le> balance ((accounts B ! nat a)\<lparr>lock := False\<rparr>)"
      by (simp add: balanceOf_def)
    with inv show ?thesis
      unfolding * by (rule ball_update)
  qed
next
  case (Transfer w l s d m)
  with assms(1) have t: "transfer w l s d m B = Inr (r, B')"
    by simp
  note bs = nonneg_at [OF inv transfer_Inr(1) [OF t]]
  note bd = nonneg_at [OF inv transfer_Inr(2) [OF t]]
  from transfer_Inr(3) [OF t] consider
    (moved) "accounts B' = (accounts B)
           [nat s := (accounts B ! nat s)\<lparr>balance := balanceOf B s - int m, lock := False\<rparr>,
            nat d := (accounts B ! nat d)\<lparr>balance := balanceOf B d + int m, lock := False\<rparr>]"
       "int m \<le> balanceOf B s"
    | (self) "accounts B' = (accounts B)[nat s := (accounts B ! nat s)\<lparr>lock := True\<rparr>]"
    | (refused) "accounts B' = (accounts B)[nat s := (accounts B ! nat s)\<lparr>lock := False\<rparr>,
                 nat d := (accounts B ! nat d)\<lparr>lock := False\<rparr>]"
    by blast
  then show ?thesis
  proof cases
    case moved
    have 1: "0 \<le> balance ((accounts B ! nat s)\<lparr>balance := balanceOf B s - int m, lock := False\<rparr>)"
      using moved(2) by simp
    have 2: "0 \<le> balance ((accounts B ! nat d)\<lparr>balance := balanceOf B d + int m, lock := False\<rparr>)"
      using bd by simp
    show ?thesis
      unfolding moved(1) by (rule ball_update [OF ball_update [OF inv 1] 2])
  next
    case self
    have "0 \<le> balance ((accounts B ! nat s)\<lparr>lock := True\<rparr>)"
      using bs by (simp add: balanceOf_def)
    with inv show ?thesis
      unfolding self by (rule ball_update)
  next
    case refused
    have 1: "0 \<le> balance ((accounts B ! nat s)\<lparr>lock := False\<rparr>)"
      using bs by (simp add: balanceOf_def)
    have 2: "0 \<le> balance ((accounts B ! nat d)\<lparr>lock := False\<rparr>)"
      using bd by (simp add: balanceOf_def)
    show ?thesis
      unfolding refused by (rule ball_update [OF ball_update [OF inv 1] 2])
  qed
qed



lemma perform_all_nonneg:
  assumes "perform_all cs B = Inr (rs, B')" and "\<forall>c\<in>set cs. 0 \<le> amount_of c"
    and "\<forall>a\<in>set (accounts B). 0 \<le> balance a"
  shows "\<forall>a\<in>set (accounts B'). 0 \<le> balance a"
  using assms
proof (induction cs arbitrary: B rs)
  case Nil
  then show ?case
    by simp
next
  case (Cons c cs)
  from Cons.prems(1) obtain r B1 rs1 where s: "perform c B = Inr (r, B1)"
    "perform_all cs B1 = Inr (rs1, B')"
    by (rule perform_all_Cons_Inr)
  from Cons.prems(2) have c: "0 \<le> amount_of c" and cs: "\<forall>c\<in>set cs. 0 \<le> amount_of c"
    by simp_all
  from perform_nonneg [OF s(1) c Cons.prems(3)] 
  show ?case
    by (rule Cons.IH [OF s(2) cs])
qed

text \<open>
  Claim C7. From a new bank, after any sequence of calls of \<^verbatim>\<open>deposit\<close>,
  \<^verbatim>\<open>withdraw\<close> and \<^verbatim>\<open>transfer\<close> whose amounts are not negative, no account has a
  negative balance.
\<close>

theorem balances_never_negative:
  assumes "Bank_init N = Inr B0" and "\<forall>c\<in>set cs. 0 \<le> amount_of c"
    and "perform_all cs B0 = Inr (rs, B)"
  shows "\<forall>a\<in>set (accounts B). 0 \<le> balance a"
proof -
  from Bank_init_Inr(7) [OF assms(1)] have "\<forall>a\<in>set (accounts B0). 0 \<le> balance a"
    by simp
  from perform_all_nonneg [OF assms(3,2) this] show ?thesis .
qed

theorem balances_never_negative_witness:
  "list_all (\<lambda>a. 0 \<le> balance a)
     (accounts (snd (projr (perform_all
        [Deposit 0 0 0 100, Withdraw 1 1 0 150, Transfer 2 2 0 1 50, Withdraw 0 3 1 20,
         Transfer 1 4 2 2 10] (new_Bank 3)))))"
proof -
  have init: "Bank_init 3 = Inr (new_Bank 3)"
    by code_simp
  have amounts: "\<forall>c\<in>set [Deposit 0 0 0 100, Withdraw 1 1 0 150, Transfer 2 2 0 1 50,
      Withdraw 0 3 1 20, Transfer 1 4 2 2 10]. 0 \<le> amount_of c"
    by simp
  have run: "perform_all
      [Deposit 0 0 0 100, Withdraw 1 1 0 150, Transfer 2 2 0 1 50, Withdraw 0 3 1 20,
       Transfer 1 4 2 2 10] (new_Bank 3)
    = Inr (fst (projr (perform_all
        [Deposit 0 0 0 100, Withdraw 1 1 0 150, Transfer 2 2 0 1 50, Withdraw 0 3 1 20,
         Transfer 1 4 2 2 10] (new_Bank 3))),
      snd (projr (perform_all
        [Deposit 0 0 0 100, Withdraw 1 1 0 150, Transfer 2 2 0 1 50, Withdraw 0 3 1 20,
         Transfer 1 4 2 2 10] (new_Bank 3))))"
    by code_simp
  from balances_never_negative [OF init amounts run] show ?thesis
    by (simp add: list_all_iff)
qed

lemma perform_out_of_bounds_iff:
  "perform c B = Inl OutOfBounds \<longleftrightarrow> \<not> (\<forall>i\<in>set (ids_of c). in_range B i)"
  by (cases c) (simp_all add: deposit_eq withdraw_eq transfer_eq)

lemma perform_length:
  assumes "perform c B = Inr (r, B')"
  shows "length (accounts B') = length (accounts B)"
proof (cases c)
  case (Deposit w l a m)
  with assms have "deposit w l a m B = Inr (r, B')"
    by simp
  from deposit_Inr(2) [OF this] show ?thesis
    by simp
next
  case (Withdraw w l a m)
  with assms have "withdraw w l a m B = Inr (r, B')"
    by simp
  from withdraw_Inr(2) [OF this] show ?thesis
    by auto
next
  case (Transfer w l s d m)
  with assms have "transfer w l s d m B = Inr (r, B')"
    by simp
  from transfer_Inr(3) [OF this] show ?thesis
    by auto
qed

lemma perform_all_in_bounds:
  assumes "\<forall>c\<in>set cs. \<forall>i\<in>set (ids_of c). 0 \<le> i \<and> i < int (length (accounts B))"
  shows "perform_all cs B \<noteq> Inl OutOfBounds"
  using assms
proof (induction cs arbitrary: B)
  case Nil
  then show ?case
    by simp
next
  case (Cons c cs)
  from Cons.prems have "\<forall>i\<in>set (ids_of c). in_range B i"
    by (simp add: in_range_def)
  then have here: "perform c B \<noteq> Inl OutOfBounds"
    by (simp add: perform_out_of_bounds_iff)
  show ?case
  proof (cases "perform c B")
    case (Inl e)
    with here show ?thesis
      by simp
  next
    case (Inr p)
    obtain r B1 where p: "p = (r, B1)"
      by (cases p) auto
    from perform_length Inr p have "length (accounts B1) = length (accounts B)"
      by simp
    with Cons.prems have "\<forall>c\<in>set cs. \<forall>i\<in>set (ids_of c). 0 \<le> i \<and> i < int (length (accounts B1))"
      by simp
    from Cons.IH [OF this] have "perform_all cs B1 \<noteq> Inl OutOfBounds" .
    with Inr p show ?thesis
      by (cases "perform_all cs B1") auto
  qed
qed


text \<open>
  Claim C10. The three operations index \<^verbatim>\<open>accounts\<close> with the ids they are given
  (a call has the out-of-bounds outcome exactly when one of its ids is out of range,
  lemma \<open>perform_out_of_bounds_iff\<close>). On a bank constructed with \<open>N\<close> accounts, a
  sequence of calls whose ids all lie in \<open>[0, N)\<close> never has the out-of-bounds
  outcome.
\<close>

theorem lookup_in_bounds:
  assumes "Bank_init N = Inr B0"
    and "\<forall>c\<in>set cs. \<forall>i\<in>set (ids_of c). 0 \<le> i \<and> i < N"
  shows "perform_all cs B0 \<noteq> Inl OutOfBounds"
proof -
  from Bank_init_Inr(1,2) [OF assms(1)] have "int (length (accounts B0)) = N"
    by simp
  with assms(2) show ?thesis
    by (intro perform_all_in_bounds) simp
qed

theorem lookup_in_bounds_witness:
  "perform_all [Deposit 0 0 9 5, Withdraw 0 1 0 5, Transfer 0 2 9 0 1, Transfer 0 3 4 4 1]
     (new_Bank 10) \<noteq> Inl OutOfBounds"
proof -
  have init: "Bank_init 10 = Inr (new_Bank 10)"
    by code_simp
  have ids: "\<forall>c\<in>set [Deposit 0 0 9 5, Withdraw 0 1 0 5, Transfer 0 2 9 0 1, Transfer 0 3 4 4 1].
      \<forall>i\<in>set (ids_of c). 0 \<le> i \<and> i < 10"
    by simp
  from lookup_in_bounds [OF init ids] show ?thesis .
qed

end
